theory Spec2Isabelle
  imports Main
begin

section \<open>JavaScript strings and record values\<close>

text \<open>
  A string is a list of characters. A \<^typ>\<open>char\<close> stands for one UTF-16 code unit with a
  code below 256, so the development covers the strings of the Latin-1 range; on these the
  primitives below compute what the JavaScript methods of the same name compute.
\<close>

text \<open>\<^verbatim>\<open>String.prototype.trim\<close> strips white space and line terminators from both ends:
  TAB, LF, VT, FF, CR, SP and NBSP are the ones below 256.\<close>

definition isWhiteSpace :: "char \<Rightarrow> bool" where
  "isWhiteSpace c = (of_char c \<in> {9, 10, 11, 12, 13, 32, 160 :: nat})"

definition trim :: "string \<Rightarrow> string" where
  "trim s = rev (dropWhile isWhiteSpace (rev (dropWhile isWhiteSpace s)))"

text \<open>\<^verbatim>\<open>toLowerCase\<close>: the letters A-Z and the Latin-1 capitals (192-222 without the
  multiplication sign 215) move up by 32; every other code unit stays.\<close>

definition lowerChar :: "char \<Rightarrow> char" where
  "lowerChar c = (let n = (of_char c :: nat) in
     if (65 \<le> n \<and> n \<le> 90) \<or> (192 \<le> n \<and> n \<le> 222 \<and> n \<noteq> 215)
     then char_of (n + 32) else c)"

definition toLowerCase :: "string \<Rightarrow> string" where
  "toLowerCase s = map lowerChar s"

fun startsWith :: "string \<Rightarrow> string \<Rightarrow> bool" where
  "startsWith s [] = True"
| "startsWith [] (p # ps) = False"
| "startsWith (c # cs) (p # ps) = (c = p \<and> startsWith cs ps)"

definition endsWith :: "string \<Rightarrow> string \<Rightarrow> bool" where
  "endsWith s p = startsWith (rev s) (rev p)"

text \<open>\<^verbatim>\<open>value.includes(term)\<close>: \<open>term\<close> occurs in \<open>value\<close> as a contiguous substring.\<close>

fun includes_str :: "string \<Rightarrow> string \<Rightarrow> bool" where
  "includes_str [] t = (t = [])"
| "includes_str (c # cs) t = (startsWith (c # cs) t \<or> includes_str cs t)"

text \<open>\<^verbatim>\<open>term.slice(1)\<close> and \<^verbatim>\<open>term.slice(1, -1)\<close>.\<close>

definition slice1 :: "string \<Rightarrow> string" where
  "slice1 s = drop 1 s"

definition slice_inner :: "string \<Rightarrow> string" where
  "slice_inner s = take (length s - 2) (drop 1 s)"

text \<open>\<^verbatim>\<open>Array.prototype.join\<close> on an array of strings.\<close>

fun join :: "string \<Rightarrow> string list \<Rightarrow> string" where
  "join sep [] = []"
| "join sep [x] = x"
| "join sep (x # y # ys) = x @ sep @ join sep (y # ys)"

text \<open>
  A record (\<open>entry\<close>) is a plain object: its own properties in enumeration order, each key
  at most once. A property value is a string, an array, or anything else.
\<close>

datatype jsvalue = JString string | JArray "jsvalue list" | JOther

type_synonym entry = "(string \<times> jsvalue) list"

text \<open>\<^verbatim>\<open>value.filter(v => typeof v === "string")\<close>\<close>

fun stringElements :: "jsvalue list \<Rightarrow> string list" where
  "stringElements [] = []"
| "stringElements (JString s # vs) = s # stringElements vs"
| "stringElements (v # vs) = stringElements vs"

section \<open>Filter (src/src/Filter.ts)\<close>

text \<open>The operator is the string \<open>'':''\<close> (contains) or \<open>''=''\<close> (exact match).\<close>

datatype Filter = Filter (field: "string option") (term': string) (operator: string)

subsection \<open>The pattern \<^verbatim>\<open>/^(\w+)([:=])"?(.+?)"?$/\<close>\<close>

definition isWordChar :: "char \<Rightarrow> bool" where
  "isWordChar c = (let n = (of_char c :: nat) in
     (48 \<le> n \<and> n \<le> 57) \<or> (65 \<le> n \<and> n \<le> 90) \<or> n = 95 \<or> (97 \<le> n \<and> n \<le> 122))"

text \<open>The dot matches every character but a line terminator (LF and CR below 256).\<close>

definition isLineTerminator :: "char \<Rightarrow> bool" where
  "isLineTerminator c = (of_char c \<in> {10, 13 :: nat})"

text \<open>
  \<^verbatim>\<open>(.+?)"?$\<close>: the lazy group takes one more character at a time (\<open>acc\<close> is what it holds)
  and stops as soon as what is left is a single double quote or nothing.
\<close>

fun lazyRest :: "string \<Rightarrow> string \<Rightarrow> string option" where
  \<open>lazyRest acc [] = None\<close>
| \<open>lazyRest acc (c # cs) =
     (if isLineTerminator c then None
      else if cs = ''"'' \<or> cs = [] then Some (acc @ [c])
      else lazyRest (acc @ [c]) cs)\<close>

text \<open>\<^verbatim>\<open>"?(.+?)"?$\<close>: the optional opening quote is greedy, so it is tried first.\<close>

definition quotedRest :: "string \<Rightarrow> string option" where
  \<open>quotedRest s =
     (case s of
        [] \<Rightarrow> lazyRest [] s
      | c # cs \<Rightarrow>
          if c = CHR ''"''
          then (case lazyRest [] cs of Some t \<Rightarrow> Some t | None \<Rightarrow> lazyRest [] s)
          else lazyRest [] s)\<close>

text \<open>\<^verbatim>\<open>([:=])"?(.+?)"?$\<close> after the word \<open>w\<close>.\<close>

definition afterWord :: "string \<Rightarrow> string \<Rightarrow> (string \<times> char \<times> string) option" where
  "afterWord w s =
     (case s of
        [] \<Rightarrow> None
      | op # rest \<Rightarrow>
          if op = CHR '':'' \<or> op = CHR ''=''
          then map_option (\<lambda>t. (w, op, t)) (quotedRest rest)
          else None)"

text \<open>\<^verbatim>\<open>(\w+)\<close> is greedy: the longer word is tried before the rest of the pattern.\<close>

fun wordThenRest :: "string \<Rightarrow> string \<Rightarrow> (string \<times> char \<times> string) option" where
  "wordThenRest acc [] = None"
| "wordThenRest acc (c # cs) =
     (if isWordChar c
      then (case wordThenRest (acc @ [c]) cs of
              Some r \<Rightarrow> Some r
            | None \<Rightarrow> afterWord (acc @ [c]) cs)
      else None)"

definition fieldMatch :: "string \<Rightarrow> (string \<times> char \<times> string) option" where
  "fieldMatch term = wordThenRest [] term"

subsection \<open>The methods\<close>

definition Filter_parse :: "string \<Rightarrow> Filter" where
  \<open>Filter_parse term =
     (case fieldMatch term of
        Some (f, op, t) \<Rightarrow> Filter (Some f) t [op]
      | None \<Rightarrow>
          if startsWith term ''"'' \<and> endsWith term ''"''
          then Filter None (slice_inner term) '':''
          else Filter None term '':'')\<close>

definition equals :: "Filter \<Rightarrow> Filter \<Rightarrow> bool" where
  "equals this otherFilter =
     (field this = field otherFilter
      \<and> term' this = term' otherFilter
      \<and> operator this = operator otherFilter)"

definition Filter_toString :: "Filter \<Rightarrow> string" where
  \<open>Filter_toString this =
     (let string = (case field this of None \<Rightarrow> [] | Some f \<Rightarrow> [f @ operator this]);
          term = (if includes_str (trim (term' this)) '' ''
                  then ''"'' @ term' this @ ''"''
                  else term' this)
      in join [] (string @ [term]))\<close>

definition matchField :: "Filter \<Rightarrow> string \<Rightarrow> bool" where
  "matchField this value =
     (let value = toLowerCase value;
          term = toLowerCase (term' this)
      in if operator this = ''='' then value = term else includes_str value term)"

text \<open>
  \<^verbatim>\<open>Object.values(entry).flatMap(...).filter(Boolean).map(s => s.toLowerCase())\<close>:
  the branch of \<^verbatim>\<open>getFields\<close> taken when \<^verbatim>\<open>!this.field\<close>.
\<close>

definition allFields :: "entry \<Rightarrow> string list" where
  "allFields entry =
     map toLowerCase
       (filter (\<lambda>s. s \<noteq> [])
          (concat (map (\<lambda>value. case value of
                           JString s \<Rightarrow> [s]
                         | JArray vs \<Rightarrow> stringElements vs
                         | JOther \<Rightarrow> [])
                    (map snd entry))))"

text \<open>\<^verbatim>\<open>entry[this.field.toLowerCase()]\<close> and the two type tests that follow it.\<close>

definition namedField :: "string \<Rightarrow> entry \<Rightarrow> string list" where
  "namedField f entry =
     (case map_of entry (toLowerCase f) of
        Some (JArray vs) \<Rightarrow> map toLowerCase (stringElements vs)
      | Some (JString s) \<Rightarrow> [toLowerCase s]
      | _ \<Rightarrow> [])"

text \<open>\<^verbatim>\<open>!this.field\<close> holds for \<open>null\<close> and for the empty string.\<close>

definition getFields :: "Filter \<Rightarrow> entry \<Rightarrow> string list" where
  "getFields this entry =
     (case field this of
        None \<Rightarrow> allFields entry
      | Some f \<Rightarrow> if f = [] then allFields entry else namedField f entry)"

definition matchEntry :: "Filter \<Rightarrow> entry \<Rightarrow> bool" where
  "matchEntry this entry = list_ex (matchField this) (getFields this entry)"

section \<open>FilterGroup (src/src/FilterGroup.ts)\<close>

text \<open>
  A group holds its include list, its exclude list and its mode, the string \<open>''AND''\<close> or
  \<open>''OR''\<close>; an item of a list is a filter or a group. The objects are modelled as values: a
  method that mutates \<open>this\<close> returns the group after the call.
\<close>

datatype FilterGroup =
    FilterGroup (include_items: "item list") (exclude_items: "item list") (mode: string)
  and item = IFilter Filter | IGroup FilterGroup

definition newFilterGroup :: "string \<Rightarrow> FilterGroup" where
  "newFilterGroup m = FilterGroup [] [] m"

definition setMode :: "FilterGroup \<Rightarrow> string \<Rightarrow> FilterGroup" where
  "setMode this m = FilterGroup (include_items this) (exclude_items this) m"

definition add :: "FilterGroup \<Rightarrow> item \<Rightarrow> bool \<Rightarrow> FilterGroup" where
  "add this filterOrGroup isExclude =
     (if isExclude
      then FilterGroup (include_items this) (exclude_items this @ [filterOrGroup]) (mode this)
      else FilterGroup (include_items this @ [filterOrGroup]) (exclude_items this) (mode this))"

definition addWithMode :: "FilterGroup \<Rightarrow> item \<Rightarrow> string \<Rightarrow> bool \<Rightarrow> FilterGroup" where
  "addWithMode this filterOrGroup m isExclude =
     (if \<not> isExclude \<and> mode this \<noteq> m
      then (let subgroup = FilterGroup (include_items this) [] (mode this)
            in add (FilterGroup [IGroup subgroup] (exclude_items this) m) filterOrGroup isExclude)
      else add this filterOrGroup isExclude)"

text \<open>
  The callback of \<^verbatim>\<open>list.filter\<close> in \<^verbatim>\<open>remove\<close>: for an item that is not a
  \<^verbatim>\<open>Filter\<close> it returns \<^verbatim>\<open>undefined\<close>, which \<^verbatim>\<open>filter\<close> reads as false.
\<close>

fun removeKeeps :: "Filter \<Rightarrow> item \<Rightarrow> bool" where
  "removeKeeps filter' (IGroup g) = False"
| "removeKeeps filter' (IFilter item) = (\<not> equals item filter')"

definition remove :: "FilterGroup \<Rightarrow> Filter \<Rightarrow> bool \<Rightarrow> FilterGroup" where
  "remove this filter' isExclude =
     (let list = (if isExclude then exclude_items this else include_items this);
          list = filter (removeKeeps filter') list
      in if isExclude
         then FilterGroup (include_items this) list (mode this)
         else FilterGroup list (exclude_items this) (mode this))"

fun matchesEntry :: "FilterGroup \<Rightarrow> entry \<Rightarrow> bool"
  and match :: "item \<Rightarrow> entry \<Rightarrow> bool" where
  "matchesEntry (FilterGroup inc exc m) entry =
     (let includesMatch =
            (if length inc = 0 then True
             else if m = ''AND'' then list_all (\<lambda>item. match item entry) inc
             else list_ex (\<lambda>item. match item entry) inc);
          excludesMatch = list_all (\<lambda>item. \<not> match item entry) exc
      in includesMatch \<and> excludesMatch)"
| "match (IGroup g) entry = matchesEntry g entry"
| "match (IFilter f) entry = matchEntry f entry"

text \<open>\<^verbatim>\<open>itemMapper\<close> puts a group in brackets when its list has more than one item.\<close>

definition isGroup :: "item \<Rightarrow> bool" where
  "isGroup item = (case item of IGroup g \<Rightarrow> True | IFilter f \<Rightarrow> False)"

definition itemMapper :: "item \<Rightarrow> string \<Rightarrow> item list \<Rightarrow> string" where
  "itemMapper item itemString itemList =
     (if isGroup item \<and> length itemList > 1 then ''('' @ itemString @ '')'' else itemString)"

fun FilterGroup_toString :: "FilterGroup \<Rightarrow> string"
  and item_toString :: "item \<Rightarrow> string" where
  "FilterGroup_toString (FilterGroup inc exc m) =
     (let joiner = (if m = ''AND'' then '' '' else ''~'');
          includes = join joiner (map (\<lambda>item. itemMapper item (item_toString item) inc) inc);
          excludes = join '' '' (map (\<lambda>item. ''-'' @ itemMapper item (item_toString item) exc) exc)
      in join '' '' (filter (\<lambda>s. s \<noteq> []) [includes, excludes]))"
| "item_toString (IGroup g) = FilterGroup_toString g"
| "item_toString (IFilter f) = Filter_toString f"

section \<open>SearchQueryParser (src/src/SearchQueryParser.ts)\<close>

subsection \<open>tokenize\<close>

text \<open>The three variables of \<^verbatim>\<open>tokenize\<close> and the body of its \<^verbatim>\<open>forEach\<close>.\<close>

record tokenizer =
  tokens :: "string list"
  buffer :: string
  inQuotes :: bool

definition isStructural :: "char \<Rightarrow> bool" where
  "isStructural character =
     (character = CHR ''('' \<or> character = CHR '')'' \<or> character = CHR ''~''
      \<or> character = CHR '' '')"

definition tokenizeStep :: "tokenizer \<Rightarrow> char \<Rightarrow> tokenizer" where
  \<open>tokenizeStep st character =
     (if character = CHR ''"''
      then st\<lparr>buffer := buffer st @ [character], inQuotes := \<not> inQuotes st\<rparr>
      else if \<not> inQuotes st \<and> isStructural character
      then (let st1 = (if trim (buffer st) \<noteq> []
                       then st\<lparr>tokens := tokens st @ [trim (buffer st)]\<rparr> else st);
                st2 = (if character \<noteq> CHR '' ''
                       then st1\<lparr>tokens := tokens st1 @ [[character]]\<rparr> else st1)
            in st2\<lparr>buffer := []\<rparr>)
      else st\<lparr>buffer := buffer st @ [character]\<rparr>)\<close>

definition tokenize :: "string \<Rightarrow> string list" where
  "tokenize query =
     (let st = foldl tokenizeStep \<lparr>tokens = [], buffer = [], inQuotes = False\<rparr> query
      in if trim (buffer st) \<noteq> [] then tokens st @ [trim (buffer st)] else tokens st)"

subsection \<open>parseTokens\<close>

text \<open>
  \<open>parseLoop\<close> is the \<^verbatim>\<open>for\<close> loop of \<^verbatim>\<open>parseTokens\<close> at index \<open>i\<close>, with the
  group built so far and \<^verbatim>\<open>currentMode\<close>; the recursive call of \<^verbatim>\<open>parseTokens\<close> on an
  opening bracket is the loop started afresh at \<open>i + 1\<close>.
\<close>

function parseLoop :: "string list \<Rightarrow> nat \<Rightarrow> FilterGroup \<Rightarrow> string \<Rightarrow> FilterGroup \<times> nat" where
  "parseLoop toks i group' currentMode =
     (if i < length toks
      then (let token = toks ! i in
            if token = ''~'' then parseLoop toks (i + 1) group' ''OR''
            else if token = ''(''
            then (case parseLoop toks (i + 1) (newFilterGroup ''AND'') ''AND'' of
                    (subgroup, nextIndex) \<Rightarrow>
                      parseLoop toks (nextIndex + 1) (add group' (IGroup subgroup) False)
                        currentMode)
            else if token = '')'' then (setMode group' currentMode, i)
            else (let isExclude = startsWith token ''-'';
                      raw = (if isExclude then slice1 token else token);
                      filter' = Filter_parse raw
                  in parseLoop toks (i + 1) (add group' (IFilter filter') isExclude) currentMode))
      else (setMode group' currentMode, length toks))"
  by pat_completeness auto

lemma parseLoop_index_lower:
  "parseLoop_dom (toks, i, group', currentMode) \<Longrightarrow>
     min i (length toks) \<le> snd (parseLoop toks i group' currentMode)"
proof (induction toks i group' currentMode rule: parseLoop.pinduct)
  case (1 toks i group' currentMode)
  note dom = "1.hyps"
  show ?case
  proof (cases "i < length toks")
    case False
    then show ?thesis by (simp add: parseLoop.psimps [OF dom])
  next
    case lt: True
    consider (tilde) "toks ! i = ''~''"
      | (opened) "toks ! i \<noteq> ''~''" "toks ! i = ''(''"
      | (closed) "toks ! i \<noteq> ''~''" "toks ! i \<noteq> ''(''" "toks ! i = '')''"
      | (leaf) "toks ! i \<noteq> ''~''" "toks ! i \<noteq> ''(''" "toks ! i \<noteq> '')''"
      by blast
    then show ?thesis
    proof cases
      case tilde
      with lt "1.IH"(1) [OF lt refl tilde] show ?thesis
        by (simp add: parseLoop.psimps [OF dom])
    next
      case opened
      obtain sub n where sub: "parseLoop toks (i + 1) (newFilterGroup ''AND'') ''AND'' = (sub, n)"
        by (cases "parseLoop toks (i + 1) (newFilterGroup ''AND'') ''AND''")
      have a: "min (i + 1) (length toks) \<le> n"
        using "1.IH"(2) [OF lt refl opened] sub by simp
      have b: "min (n + 1) (length toks)
          \<le> snd (parseLoop toks (n + 1) (add group' (IGroup sub) False) currentMode)"
        using "1.IH"(3) [OF lt refl opened sub [symmetric]] by simp
      from a b lt opened sub show ?thesis
        by (simp add: parseLoop.psimps [OF dom])
    next
      case closed
      with lt show ?thesis by (simp add: parseLoop.psimps [OF dom])
    next
      case leaf
      with lt "1.IH"(4) [OF lt refl leaf refl refl refl] show ?thesis
        by (simp add: parseLoop.psimps [OF dom] Let_def)
    qed
  qed
qed

lemma parseLoop_total: "All parseLoop_dom"
proof (relation "measure (\<lambda>(toks, i, group', currentMode). length toks - i)", goal_cases)
  case 1
  show ?case by simp
next
  case (2 toks i group' currentMode x)
  then show ?case by simp
next
  case (3 toks i group' currentMode x)
  then show ?case by simp
next
  case (4 toks i group' currentMode x xa y)
  then have dom: "parseLoop_dom (toks, i + 1, newFilterGroup ''AND'', ''AND'')"
    and res: "snd (parseLoop toks (i + 1) (newFilterGroup ''AND'') ''AND'') = y"
    and lt: "i < length toks"
    by (simp_all, metis snd_conv)
  from parseLoop_index_lower [OF dom] res lt show ?case by simp
next
  case (5 toks i group' currentMode x xa xb xc)
  then show ?case by simp
qed

termination parseLoop
  by (rule parseLoop_total)

definition parseTokens :: "string list \<Rightarrow> nat \<Rightarrow> FilterGroup \<times> nat" where
  "parseTokens toks start = parseLoop toks start (newFilterGroup ''AND'') ''AND''"

definition parseQuery :: "string \<Rightarrow> FilterGroup" where
  "parseQuery query = (let toks = tokenize query in fst (parseTokens toks 0))"

declare parseLoop.simps [simp del]

subsection \<open>parseTokens on a call stack\<close>

text \<open>
  The same loop with the call stack of the engine made explicit. \<^verbatim>\<open>parseTokens\<close> calls
  itself on every opening bracket, and the call returns only at the closing bracket, so
  each bracket that is open holds one frame. \<open>frames\<close> is the number of further calls of
  \<^verbatim>\<open>parseTokens\<close> that the stack has room for; a call that finds no room throws
  \<^verbatim>\<open>RangeError\<close>, which nothing in the parser catches.
\<close>

datatype error = RangeError

function parseLoopS ::
  "nat \<Rightarrow> string list \<Rightarrow> nat \<Rightarrow> FilterGroup \<Rightarrow> string \<Rightarrow> error + FilterGroup \<times> nat" where
  "parseLoopS frames toks i group' currentMode =
     (if i < length toks
      then (let token = toks ! i in
            if token = ''~'' then parseLoopS frames toks (i + 1) group' ''OR''
            else if token = ''(''
            then (case frames of
                    0 \<Rightarrow> Inl RangeError
                  | Suc below \<Rightarrow>
                      (case parseLoopS below toks (i + 1) (newFilterGroup ''AND'') ''AND'' of
                         Inl e \<Rightarrow> Inl e
                       | Inr (subgroup, nextIndex) \<Rightarrow>
                           parseLoopS frames toks (nextIndex + 1)
                             (add group' (IGroup subgroup) False) currentMode))
            else if token = '')'' then Inr (setMode group' currentMode, i)
            else (let isExclude = startsWith token ''-'';
                      raw = (if isExclude then slice1 token else token);
                      filter' = Filter_parse raw
                  in parseLoopS frames toks (i + 1) (add group' (IFilter filter') isExclude)
                       currentMode))
      else Inr (setMode group' currentMode, length toks))"
  by pat_completeness auto

lemma parseLoopS_index_lower:
  "parseLoopS_dom (frames, toks, i, group', currentMode) \<Longrightarrow>
     parseLoopS frames toks i group' currentMode = Inr r \<Longrightarrow>
     min i (length toks) \<le> snd r"
proof (induction frames toks i group' currentMode arbitrary: r rule: parseLoopS.pinduct)
  case (1 frames toks i group' currentMode)
  note dom = "1.hyps"
  note res = "1.prems"
  show ?case
  proof (cases "i < length toks")
    case False
    with res show ?thesis by (auto simp: parseLoopS.psimps [OF dom])
  next
    case lt: True
    consider (tilde) "toks ! i = ''~''"
      | (opened) "toks ! i \<noteq> ''~''" "toks ! i = ''(''"
      | (closed) "toks ! i \<noteq> ''~''" "toks ! i \<noteq> ''(''" "toks ! i = '')''"
      | (leaf) "toks ! i \<noteq> ''~''" "toks ! i \<noteq> ''(''" "toks ! i \<noteq> '')''"
      by blast
    then show ?thesis
    proof cases
      case tilde
      with lt res have "parseLoopS frames toks (i + 1) group' ''OR'' = Inr r"
        by (simp add: parseLoopS.psimps [OF dom])
      from "1.IH"(1) [OF lt refl tilde this] lt show ?thesis by simp
    next
      case opened
      from lt opened res obtain below sub n
        where fr: "frames = Suc below"
          and sub: "parseLoopS below toks (i + 1) (newFilterGroup ''AND'') ''AND'' = Inr (sub, n)"
          and rest: "parseLoopS frames toks (n + 1) (add group' (IGroup sub) False) currentMode
                     = Inr r"
        by (auto simp: parseLoopS.psimps [OF dom] split: nat.splits sum.splits prod.splits)
      have a: "min (i + 1) (length toks) \<le> n"
        using "1.IH"(2) [OF lt refl opened fr sub] by simp
      have b: "min (n + 1) (length toks) \<le> snd r"
        using "1.IH"(3) [OF lt refl opened fr sub refl rest] by simp
      from a b lt show ?thesis by simp
    next
      case closed
      with lt res show ?thesis by (auto simp: parseLoopS.psimps [OF dom])
    next
      case leaf
      let ?x = "startsWith (toks ! i) ''-''"
      let ?f = "Filter_parse (if ?x then slice1 (toks ! i) else toks ! i)"
      from lt leaf res
      have "parseLoopS frames toks (i + 1) (add group' (IFilter ?f) ?x) currentMode = Inr r"
        by (simp add: parseLoopS.psimps [OF dom] Let_def)
      from "1.IH"(4) [OF lt refl leaf refl refl refl this] lt show ?thesis by simp
    qed
  qed
qed

lemma parseLoopS_total: "All parseLoopS_dom"
proof (relation "measure (\<lambda>(frames, toks, i, group', currentMode). length toks - i)",
    goal_cases)
  case 1
  show ?case by simp
next
  case (2 frames toks i group' currentMode x)
  then show ?case by simp
next
  case (3 frames toks i group' currentMode x below)
  then show ?case by simp
next
  case (4 frames toks i group' currentMode x below b sub n)
  then have dom: "parseLoopS_dom (below, toks, i + 1, newFilterGroup ''AND'', ''AND'')"
    and res: "parseLoopS below toks (i + 1) (newFilterGroup ''AND'') ''AND'' = Inr (sub, n)"
    and lt: "i < length toks"
    by simp_all
  from parseLoopS_index_lower [OF dom res] lt show ?case by simp
next
  case (5 frames toks i group' currentMode x xa xb xc)
  then show ?case by simp
qed

termination parseLoopS
  by (rule parseLoopS_total)

declare parseLoopS.simps [simp del]

definition parseTokensS :: "nat \<Rightarrow> string list \<Rightarrow> nat \<Rightarrow> error + FilterGroup \<times> nat" where
  "parseTokensS frames toks start = parseLoopS frames toks start (newFilterGroup ''AND'') ''AND''"

definition parseQueryS :: "nat \<Rightarrow> string \<Rightarrow> error + FilterGroup" where
  "parseQueryS frames query =
     (let toks = tokenize query
      in case parseTokensS frames toks 0 of Inl e \<Rightarrow> Inl e | Inr (group', n) \<Rightarrow> Inr group')"


section \<open>Descriptions that the statements below compare the code with\<close>

subsection \<open>The tokenizer as a scan\<close>

text \<open>
  The scan of the query, read off the description of the tokenizer: \<open>flush\<close> emits the
  trimmed buffer when it is not empty; outside quotes a bracket or a tilde flushes and then
  is a token of its own, and a space only flushes; a double quote goes into the buffer and
  toggles the flag; inside quotes every character goes into the buffer; the end of the
  input flushes.
\<close>

definition flush :: "string \<Rightarrow> string list" where
  "flush buf = (if trim buf \<noteq> [] then [trim buf] else [])"

fun scan :: "string \<Rightarrow> bool \<Rightarrow> string \<Rightarrow> string list" where
  \<open>scan buf inq [] = flush buf\<close>
| \<open>scan buf inq (c # cs) =
     (if c = CHR ''"'' then scan (buf @ [c]) (\<not> inq) cs
      else if inq then scan (buf @ [c]) inq cs
      else if c = CHR ''('' \<or> c = CHR '')'' \<or> c = CHR ''~''
      then flush buf @ [[c]] @ scan [] False cs
      else if c = CHR '' '' then flush buf @ scan [] False cs
      else scan (buf @ [c]) inq cs)\<close>

subsection \<open>The leaf filter of a token\<close>

text \<open>
  \<open>stripPair\<close> strips a pair of surrounding double quotes and leaves a lone quote alone;
  \<open>stripLeadingQuote\<close> and \<open>stripTrailingQuote\<close> strip one quote at their end each, as long
  as a character remains.
\<close>

definition stripLeadingQuote :: "string \<Rightarrow> string" where
  \<open>stripLeadingQuote s = (if 2 \<le> length s \<and> hd s = CHR ''"'' then tl s else s)\<close>

definition stripTrailingQuote :: "string \<Rightarrow> string" where
  \<open>stripTrailingQuote s = (if 2 \<le> length s \<and> last s = CHR ''"'' then butlast s else s)\<close>

definition stripPair :: "string \<Rightarrow> string" where
  \<open>stripPair s =
     (if 2 \<le> length s \<and> hd s = CHR ''"'' \<and> last s = CHR ''"'' then butlast (tl s) else s)\<close>

text \<open>
  The leaf filter of a token, described without the pattern: the name is the longest
  prefix of word characters; it must be followed by a colon or an equals sign and at least
  one more character, none of them a line terminator.
\<close>

definition parse_spec :: "string \<Rightarrow> Filter" where
  \<open>parse_spec token =
     (let name = takeWhile isWordChar token;
          rest = dropWhile isWordChar token
      in if name \<noteq> [] \<and> 2 \<le> length rest \<and> (hd rest = CHR '':'' \<or> hd rest = CHR ''='')
            \<and> \<not> list_ex isLineTerminator (tl rest)
         then Filter (Some name) (stripTrailingQuote (stripLeadingQuote (tl rest))) [hd rest]
         else if token \<noteq> [] \<and> hd token = CHR ''"'' \<and> last token = CHR ''"''
         then Filter None (butlast (tl token)) '':''
         else Filter None token '':'')\<close>

subsection \<open>The tokens of one bracket level\<close>

text \<open>
  \<open>levelTokens d ts\<close> are the tokens of \<open>ts\<close> that stand at the current bracket level when
  \<open>d\<close> brackets are open inside it: the tokens between an opening bracket and its closing
  bracket are left out, and the level ends at its own closing bracket.
\<close>

fun levelTokens :: "nat \<Rightarrow> string list \<Rightarrow> string list" where
  "levelTokens d [] = []"
| "levelTokens d (t # ts) =
     (if t = ''('' then levelTokens (Suc d) ts
      else if t = '')'' then (case d of 0 \<Rightarrow> [] | Suc d' \<Rightarrow> levelTokens d' ts)
      else if d = 0 then t # levelTokens d ts
      else levelTokens d ts)"

fun leafFilters :: "item list \<Rightarrow> Filter list" where
  "leafFilters [] = []"
| "leafFilters (IFilter f # its) = f # leafFilters its"
| "leafFilters (IGroup g # its) = leafFilters its"

definition isIncludeToken :: "string \<Rightarrow> bool" where
  "isIncludeToken t = (t \<noteq> ''~'' \<and> \<not> startsWith t ''-'')"

subsection \<open>The brackets open at once\<close>

text \<open>
  \<open>openDepth d ts\<close> is the greatest number of brackets open at once while the tokens \<open>ts\<close>
  of a level are read with \<open>d\<close> brackets open inside it; the reading ends at the closing
  bracket of the level, as \<open>levelTokens\<close> does.
\<close>

fun openDepth :: "nat \<Rightarrow> string list \<Rightarrow> nat" where
  "openDepth d [] = d"
| "openDepth d (t # ts) =
     (if t = ''('' then openDepth (Suc d) ts
      else if t = '')'' then (case d of 0 \<Rightarrow> 0 | Suc d' \<Rightarrow> max d (openDepth d' ts))
      else openDepth d ts)"

section \<open>Properties of the string primitives\<close>

lemma lowerChar_idem: "lowerChar (lowerChar c) = lowerChar c"
  by (auto simp add: lowerChar_def Let_def)

lemma toLowerCase_idem: "toLowerCase (toLowerCase s) = toLowerCase s"
  by (simp add: toLowerCase_def lowerChar_idem)

lemma toLowerCase_Nil_iff: "toLowerCase s = [] \<longleftrightarrow> s = []"
  by (simp add: toLowerCase_def)

lemma matchField_lower: "matchField f (toLowerCase s) = matchField f s"
  by (simp add: matchField_def toLowerCase_idem)

lemma matchField_exact_empty:
  "operator f = ''='' \<Longrightarrow> term' f = [] \<Longrightarrow> matchField f v \<longleftrightarrow> v = []"
  by (simp add: matchField_def toLowerCase_Nil_iff) (simp add: toLowerCase_def)

section \<open>Evaluation of a group\<close>

text \<open>
  Claim C1. For every group \<open>g\<close> and record \<open>e\<close>, \<open>matchesEntry g e\<close> is the conjunction
  of the include side and the exclude side. The include side is true when the include list
  is empty; otherwise it is the conjunction (mode \<open>''AND''\<close>) or the disjunction (any other
  mode, \<open>''OR''\<close> in particular) of the results of \<open>match\<close> on the include items, where
  \<open>match\<close> on a nested group is \<open>matchesEntry\<close> again. The exclude side holds iff no
  exclude item matches; the mode does not occur in it.
\<close>

theorem matchesEntry_include_exclude:
  "matchesEntry g e =
     ((if include_items g = [] then True
       else if mode g = ''AND'' then (\<forall>it \<in> set (include_items g). match it e)
       else (\<exists>it \<in> set (include_items g). match it e))
      \<and> \<not> (\<exists>it \<in> set (exclude_items g). match it e))
   \<and> match (IGroup g) e = matchesEntry g e
   \<and> match (IFilter f) e = matchEntry f e"
  by (cases g) (auto simp: list_all_iff list_ex_iff)

theorem matchesEntry_include_exclude_witness:
  "matchesEntry
     (FilterGroup
        [IFilter (Filter None ''say'' '':''),
         IGroup (FilterGroup [IFilter (Filter None ''hi'' '':''), IFilter (Filter None ''yo'' '':'')]
                   [] ''OR'')]
        [IFilter (Filter None ''hello'' '':'')] ''AND'')
     [(''text'', JString ''I can say hi'')]
   \<and> match (IFilter (Filter None ''say'' '':'')) [(''text'', JString ''I can say hi'')]
   \<and> match (IGroup (FilterGroup [IFilter (Filter None ''hi'' '':''),
                                   IFilter (Filter None ''yo'' '':'')] [] ''OR''))
         [(''text'', JString ''I can say hi'')]
   \<and> \<not> match (IFilter (Filter None ''hello'' '':'')) [(''text'', JString ''I can say hi'')]"
proof -
  let ?g = "FilterGroup
        [IFilter (Filter None ''say'' '':''),
         IGroup (FilterGroup [IFilter (Filter None ''hi'' '':''), IFilter (Filter None ''yo'' '':'')]
                   [] ''OR'')]
        [IFilter (Filter None ''hello'' '':'')] ''AND''"
  let ?e = "[(''text'', JString ''I can say hi'')]"
  have m: "matchesEntry ?g ?e"
    by code_simp
  from m matchesEntry_include_exclude [of ?g ?e] show ?thesis
    by simp
qed

section \<open>Candidate values of a filter\<close>

lemma allFields_nonempty: "[] \<notin> set (allFields e)"
  by (auto simp: allFields_def toLowerCase_def)

lemma namedField_absent: "toLowerCase n \<notin> fst ` set e \<Longrightarrow> namedField n e = []"
  by (simp add: namedField_def map_of_eq_None_iff [THEN iffD2])

text \<open>
  Claim C2, as the code has it. A filter with a non-empty field name reads the property
  whose key is the lower-cased field name, and no other: when that key holds a string, the
  string is the one candidate and the filter matches iff the string passes the operator
  test; when it holds an array, its string elements are the candidates; when every record
  key that equals the field name up to letter case contains a capital letter, there is no
  candidate and the filter does not match. So the key \<open>name\<close> is found by the field
  \<open>Name\<close>, and the key \<open>Name\<close> is found by no field.
\<close>

theorem getFields_key_lookup:
  assumes "field f = Some n" and "n \<noteq> []"
  shows "(map_of e (toLowerCase n) = Some (JString s) \<longrightarrow>
            getFields f e = [toLowerCase s] \<and> matchEntry f e = matchField f s)
       \<and> (map_of e (toLowerCase n) = Some (JArray vs) \<longrightarrow>
            getFields f e = map toLowerCase (stringElements vs)
            \<and> matchEntry f e = (\<exists>s \<in> set (stringElements vs). matchField f s))
       \<and> ((\<forall>k \<in> fst ` set e. toLowerCase k = toLowerCase n \<longrightarrow> k \<noteq> toLowerCase k) \<longrightarrow>
            getFields f e = [] \<and> \<not> matchEntry f e)"
proof (intro conjI impI)
  assume "map_of e (toLowerCase n) = Some (JString s)"
  with assms show "getFields f e = [toLowerCase s]"
    by (simp add: getFields_def namedField_def)
  then show "matchEntry f e = matchField f s"
    by (simp add: matchEntry_def matchField_lower)
next
  assume "map_of e (toLowerCase n) = Some (JArray vs)"
  with assms show g: "getFields f e = map toLowerCase (stringElements vs)"
    by (simp add: getFields_def namedField_def)
  show "matchEntry f e = (\<exists>s \<in> set (stringElements vs). matchField f s)"
    by (simp add: matchEntry_def g list_ex_iff matchField_lower)
next
  assume a: "\<forall>k \<in> fst ` set e. toLowerCase k = toLowerCase n \<longrightarrow> k \<noteq> toLowerCase k"
  have "toLowerCase n \<notin> fst ` set e"
  proof
    assume "toLowerCase n \<in> fst ` set e"
    with a have "toLowerCase (toLowerCase n) = toLowerCase n
        \<longrightarrow> toLowerCase n \<noteq> toLowerCase (toLowerCase n)"
      by blast
    then show False by (simp add: toLowerCase_idem)
  qed
  with assms show g: "getFields f e = []"
    by (simp add: getFields_def namedField_absent)
  show "\<not> matchEntry f e"
    by (simp add: matchEntry_def g)
qed

theorem getFields_key_lookup_witness:
  "getFields (Filter (Some ''Name'') ''bo'' '':'') [(''name'', JString ''Bob'')] = [''bob'']
   \<and> matchEntry (Filter (Some ''Name'') ''bo'' '':'') [(''name'', JString ''Bob'')]
   \<and> matchEntry (Filter (Some ''Tag'') ''red'' ''='')
        [(''tag'', JArray [JString ''Blue'', JOther, JString ''RED''])]
   \<and> \<not> matchEntry (Filter (Some ''name'') ''bob'' '':'') [(''Name'', JString ''bob'')]"
proof -
  let ?f1 = "Filter (Some ''Name'') ''bo'' '':''"
  let ?e1 = "[(''name'', JString ''Bob'')]"
  have f1: "field ?f1 = Some ''Name''" and n1: "''Name'' \<noteq> []"
    by simp_all
  have k1: "map_of ?e1 (toLowerCase ''Name'') = Some (JString ''Bob'')"
    by code_simp
  have t1: "matchField ?f1 ''Bob''" and l1: "toLowerCase ''Bob'' = ''bob''"
    by code_simp+
  note a = getFields_key_lookup [OF f1 n1, of ?e1 "''Bob''"]
  let ?f2 = "Filter (Some ''Tag'') ''red'' ''=''"
  let ?e2 = "[(''tag'', JArray [JString ''Blue'', JOther, JString ''RED''])]"
  have f2: "field ?f2 = Some ''Tag''" and n2: "''Tag'' \<noteq> []"
    by simp_all
  have k2: "map_of ?e2 (toLowerCase ''Tag'')
      = Some (JArray [JString ''Blue'', JOther, JString ''RED''])"
    by code_simp
  have t2: "\<exists>s \<in> set (stringElements [JString ''Blue'', JOther, JString ''RED'']).
      matchField ?f2 s"
    by code_simp
  note b = getFields_key_lookup [OF f2 n2, of ?e2 _ "[JString ''Blue'', JOther, JString ''RED'']"]
  let ?f3 = "Filter (Some ''name'') ''bob'' '':''"
  let ?e3 = "[(''Name'', JString ''bob'')]"
  have f3: "field ?f3 = Some ''name''" and n3: "''name'' \<noteq> []"
    by simp_all
  have k3: "\<forall>k \<in> fst ` set ?e3. toLowerCase k = toLowerCase ''name'' \<longrightarrow> k \<noteq> toLowerCase k"
    by code_simp
  note c = getFields_key_lookup [OF f3 n3, of ?e3]
  from a k1 t1 l1 b k2 t2 c k3 show ?thesis
    by simp
qed

text \<open>
  The claim as written fails for the record key \<open>Name\<close> and the field \<open>name\<close>: the key is
  not found, so the filter has no candidate and does not match a value that contains its
  term.
\<close>

theorem getFields_capital_key_counterexample:
  "getFields (Filter (Some ''name'') ''bob'' '':'') [(''Name'', JString ''bob'')] = []
   \<and> \<not> matchEntry (Filter (Some ''name'') ''bob'' '':'') [(''Name'', JString ''bob'')]"
  by code_simp

text \<open>
  Claim C9. A filter without a field (the field is \<open>null\<close> or the empty string, for which
  \<^verbatim>\<open>!this.field\<close> holds as well) never has the empty string among its candidates
  (empty property values are dropped, and of an array only the string elements are taken
  at all), so with the exact operator and the empty term it matches no record. A filter
  with a field whose lower-cased name is a key holding the empty string has the empty
  string as its one candidate, so with the exact operator and the empty term it matches.
\<close>

theorem empty_string_asymmetry:
  "((field f = None \<or> field f = Some []) \<longrightarrow> [] \<notin> set (getFields f e))
   \<and> ((field f = None \<or> field f = Some []) \<and> operator f = ''='' \<and> term' f = []
        \<longrightarrow> \<not> matchEntry f e)
   \<and> (field f = Some n \<and> n \<noteq> [] \<and> map_of e (toLowerCase n) = Some (JString [])
        \<longrightarrow> getFields f e = [[]])
   \<and> (field f = Some n \<and> n \<noteq> [] \<and> map_of e (toLowerCase n) = Some (JString [])
        \<and> operator f = ''='' \<and> term' f = [] \<longrightarrow> matchEntry f e)"
proof (intro conjI impI)
  assume "field f = None \<or> field f = Some []"
  then show "[] \<notin> set (getFields f e)"
    by (auto simp: getFields_def allFields_nonempty)
next
  assume a: "(field f = None \<or> field f = Some []) \<and> operator f = ''='' \<and> term' f = []"
  then have "\<forall>v \<in> set (getFields f e). \<not> matchField f v"
    using allFields_nonempty [of e] by (auto simp: getFields_def matchField_exact_empty)
  then show "\<not> matchEntry f e"
    by (simp add: matchEntry_def list_ex_iff)
next
  assume "field f = Some n \<and> n \<noteq> [] \<and> map_of e (toLowerCase n) = Some (JString [])"
  then show "getFields f e = [[]]"
    by (simp add: getFields_def namedField_def toLowerCase_def)
next
  assume "field f = Some n \<and> n \<noteq> [] \<and> map_of e (toLowerCase n) = Some (JString [])
        \<and> operator f = ''='' \<and> term' f = []"
  then show "matchEntry f e"
    by (simp add: matchEntry_def getFields_def namedField_def toLowerCase_def matchField_def)
qed

theorem empty_string_asymmetry_witness:
  "getFields (Filter None [] ''='')
      [(''a'', JString []), (''b'', JArray [JString [], JOther, JString ''X''])] = [''x'']
   \<and> \<not> matchEntry (Filter None [] ''='')
      [(''a'', JString []), (''b'', JArray [JString [], JOther, JString ''X''])]
   \<and> getFields (Filter (Some ''A'') [] ''='')
      [(''a'', JString []), (''b'', JArray [JString [], JOther, JString ''X''])] = [[]]
   \<and> matchEntry (Filter (Some ''A'') [] ''='')
      [(''a'', JString []), (''b'', JArray [JString [], JOther, JString ''X''])]"
proof -
  let ?e = "[(''a'', JString []), (''b'', JArray [JString [], JOther, JString ''X''])]"
  have g: "getFields (Filter None [] ''='') ?e = [''x'']"
    by code_simp
  have k: "map_of ?e (toLowerCase ''A'') = Some (JString [])"
    by code_simp
  from g k empty_string_asymmetry [of "Filter None [] ''=''" ?e]
    empty_string_asymmetry [of "Filter (Some ''A'') [] ''=''" ?e "''A''"]
  show ?thesis
    by simp
qed

section \<open>Mutation of a group\<close>

lemma leafFilters_filter_removeKeeps:
  "leafFilters (filter (removeKeeps f) its) = filter (\<lambda>x. \<not> equals x f) (leafFilters its)"
  by (induction its rule: leafFilters.induct) simp_all

text \<open>
  Claim C7 at the place where the code departs from it. After \<open>remove\<close>, the selected
  list holds no nested group at all, whatever filter was to be removed: the callback
  returns nothing for an item that is not a filter, and \<^verbatim>\<open>list.filter\<close> drops the item.
  The rest is as the claim says: of the leaf filters of the selected list exactly those
  equal to the given filter go, and the other list and the mode stay. The group at the end
  loses its nested group when the filter \<open>c\<close>, which it does not contain, is removed.
\<close>

theorem remove_discards_groups:
  "IGroup sub \<notin> set (include_items (remove g f False))
   \<and> IGroup sub \<notin> set (exclude_items (remove g f True))
   \<and> leafFilters (include_items (remove g f False))
       = filter (\<lambda>x. \<not> equals x f) (leafFilters (include_items g))
   \<and> leafFilters (exclude_items (remove g f True))
       = filter (\<lambda>x. \<not> equals x f) (leafFilters (exclude_items g))
   \<and> exclude_items (remove g f False) = exclude_items g
   \<and> include_items (remove g f True) = include_items g
   \<and> mode (remove g f b) = mode g
   \<and> remove (FilterGroup
               [IFilter (Filter None ''a'' '':''),
                IGroup (FilterGroup [IFilter (Filter None ''b'' '':'')] [] ''OR'')]
               [] ''AND'')
        (Filter None ''c'' '':'') False
      = FilterGroup [IFilter (Filter None ''a'' '':'')] [] ''AND''"
  by (simp add: remove_def leafFilters_filter_removeKeeps) (simp add: equals_def)

text \<open>
  Claim C10. \<open>addWithMode\<close> with \<open>isExclude\<close> true leaves the include list and the mode
  as they are, whatever mode is asked for, and appends the item to the exclude list. With
  \<open>isExclude\<close> false it is a plain \<open>add\<close> when the modes agree; when they differ, the old
  include list moves into a subgroup that carries the old mode, the group takes the new
  mode and the item follows the subgroup.
\<close>

theorem addWithMode_exclude_frame:
  "include_items (addWithMode g it m True) = include_items g
   \<and> mode (addWithMode g it m True) = mode g
   \<and> exclude_items (addWithMode g it m True) = exclude_items g @ [it]
   \<and> (mode g = m \<longrightarrow> addWithMode g it m False = add g it False)
   \<and> (mode g \<noteq> m \<longrightarrow>
        addWithMode g it m False =
          FilterGroup [IGroup (FilterGroup (include_items g) [] (mode g)), it]
            (exclude_items g) m)"
  by (simp add: addWithMode_def add_def)

theorem addWithMode_exclude_frame_witness:
  "addWithMode (FilterGroup [IFilter (Filter None ''a'' '':'')] [] ''AND'')
      (IFilter (Filter None ''b'' '':'')) ''OR'' True
     = FilterGroup [IFilter (Filter None ''a'' '':'')] [IFilter (Filter None ''b'' '':'')] ''AND''
   \<and> addWithMode (FilterGroup [IFilter (Filter None ''a'' '':'')] [] ''AND'')
      (IFilter (Filter None ''b'' '':'')) ''AND'' False
     = FilterGroup [IFilter (Filter None ''a'' '':''), IFilter (Filter None ''b'' '':'')] [] ''AND''
   \<and> addWithMode (FilterGroup [IFilter (Filter None ''a'' '':'')] [] ''AND'')
      (IFilter (Filter None ''b'' '':'')) ''OR'' False
     = FilterGroup
         [IGroup (FilterGroup [IFilter (Filter None ''a'' '':'')] [] ''AND''),
          IFilter (Filter None ''b'' '':'')] [] ''OR''"
proof -
  let ?g = "FilterGroup [IFilter (Filter None ''a'' '':'')] [] ''AND''"
  let ?it = "IFilter (Filter None ''b'' '':'')"
  have e: "mode ?g = ''AND''" and d: "mode ?g \<noteq> ''OR''"
    by simp_all
  have x: "addWithMode ?g ?it ''OR'' True = FilterGroup (include_items (addWithMode ?g ?it ''OR'' True))
     (exclude_items (addWithMode ?g ?it ''OR'' True)) (mode (addWithMode ?g ?it ''OR'' True))"
    by simp
  from addWithMode_exclude_frame [of ?g ?it "''OR''"] addWithMode_exclude_frame [of ?g ?it "''AND''"] e d
  show ?thesis
    by (subst x) (simp add: add_def)
qed

section \<open>The tokenizer\<close>

lemma foldl_tokenizeStep_scan:
  "tokens (foldl tokenizeStep st q) @ flush (buffer (foldl tokenizeStep st q))
     = tokens st @ scan (buffer st) (inQuotes st) q"
proof (induction q arbitrary: st)
  case Nil
  show ?case by simp
next
  case (Cons c cs)
  show ?case
    by (simp add: Cons.IH [of "tokenizeStep st c"])
       (simp add: tokenizeStep_def isStructural_def flush_def Let_def)
qed

lemma tokenize_scan: "tokenize q = scan [] False q"
  using foldl_tokenizeStep_scan [of "\<lparr>tokens = [], buffer = [], inQuotes = False\<rparr>" q]
  by (simp add: tokenize_def flush_def Let_def split: if_splits)

lemma flush_nonempty: "[] \<notin> set (flush buf)"
  by (simp add: flush_def)

lemma scan_nonempty: "[] \<notin> set (scan buf inq q)"
  by (induction q arbitrary: buf inq) (auto simp: flush_nonempty)

lemma scan_spaces: "scan [] False (replicate n (CHR '' '')) = []"
  by (induction n) (simp_all add: flush_def trim_def)

text \<open>
  Claim C4. For every query, \<open>tokenize\<close> yields the tokens of the scan described above,
  started with the empty buffer outside quotes. No token is empty, so a run of spaces
  yields no token, and the query \<open>(hello)\<close> yields the three tokens \<open>(\<close>, \<open>hello\<close>
  and \<open>)\<close>.
\<close>

theorem tokenize_scan_tokens:
  "tokenize query = scan [] False query
   \<and> [] \<notin> set (tokenize query)
   \<and> tokenize (replicate n (CHR '' '')) = []
   \<and> tokenize ''(hello)'' = [''('', ''hello'', '')'']"
proof -
  have "scan [] False ''(hello)'' = [''('', ''hello'', '')'']"
    by code_simp
  then show ?thesis
    by (simp add: tokenize_scan scan_nonempty scan_spaces)
qed

theorem tokenize_scan_tokens_witness:
  \<open>tokenize ''say  "hello (world)" (a~b)'' = [''say'', ''"hello (world)"'', ''('', ''a'', ''~'', ''b'', '')'']\<close>
proof -
  have \<open>scan [] False ''say  "hello (world)" (a~b)'' = [''say'', ''"hello (world)"'', ''('', ''a'', ''~'', ''b'', '')'']\<close>
    by code_simp
  with tokenize_scan_tokens [of \<open>''say  "hello (world)" (a~b)''\<close>] show ?thesis
    by simp
qed

section \<open>The leaf filter parse\<close>

lemma quote_not_lt: \<open>\<not> isLineTerminator (CHR ''"'')\<close>
  by (simp add: isLineTerminator_def)

lemma stripTrailingQuote_Cons:
  \<open>cs \<noteq> [] \<Longrightarrow> cs \<noteq> ''"'' \<Longrightarrow> stripTrailingQuote (c # cs) = c # stripTrailingQuote cs\<close>
  by (cases cs rule: rev_cases) (auto simp: stripTrailingQuote_def butlast_append Suc_le_eq)

lemma lazyRest_eq:
  "lazyRest acc x =
     (if x \<noteq> [] \<and> \<not> list_ex isLineTerminator x then Some (acc @ stripTrailingQuote x) else None)"
proof (induction x arbitrary: acc)
  case Nil
  show ?case by simp
next
  case (Cons c cs)
  show ?case
  proof (cases \<open>cs = ''"'' \<or> cs = []\<close>)
    case True
    then show ?thesis
      by (auto simp: stripTrailingQuote_def quote_not_lt)
  next
    case False
    then show ?thesis
      by (simp add: Cons.IH stripTrailingQuote_Cons)
  qed
qed

lemma quotedRest_eq:
  "quotedRest rest =
     (if rest \<noteq> [] \<and> \<not> list_ex isLineTerminator rest
      then Some (stripTrailingQuote (stripLeadingQuote rest)) else None)"
proof (cases rest)
  case Nil
  then show ?thesis by (simp add: quotedRest_def)
next
  case (Cons c cs)
  then show ?thesis
    by (cases cs)
       (auto simp: quotedRest_def lazyRest_eq stripLeadingQuote_def quote_not_lt)
qed

lemma isWordChar_not_op: "isWordChar c \<Longrightarrow> c \<noteq> CHR '':'' \<and> c \<noteq> CHR ''=''"
  by (auto simp: isWordChar_def)

lemma afterWord_word: "s \<noteq> [] \<Longrightarrow> isWordChar (hd s) \<Longrightarrow> afterWord w s = None"
  by (cases s) (auto simp: afterWord_def dest: isWordChar_not_op)

lemma wordThenRest_eq:
  "wordThenRest acc t =
     (if takeWhile isWordChar t = [] then None
      else afterWord (acc @ takeWhile isWordChar t) (dropWhile isWordChar t))"
proof (induction t arbitrary: acc)
  case Nil
  show ?case by simp
next
  case (Cons c cs)
  show ?case
  proof (cases "isWordChar c")
    case False
    then show ?thesis by simp
  next
    case c: True
    show ?thesis
    proof (cases "takeWhile isWordChar cs = []")
      case True
      then have "dropWhile isWordChar cs = cs"
        by (cases cs) (auto split: if_splits)
      with True c show ?thesis
        by (simp add: Cons.IH)
    next
      case False
      then have "cs \<noteq> []" and "isWordChar (hd cs)"
        by (cases cs; auto split: if_splits)+
      then have "afterWord (acc @ [c]) cs = None"
        by (rule afterWord_word)
      with False c show ?thesis
        by (simp add: Cons.IH split: option.splits)
    qed
  qed
qed

lemma afterWord_eq:
  "afterWord w r =
     (if 2 \<le> length r \<and> (hd r = CHR '':'' \<or> hd r = CHR ''='')
         \<and> \<not> list_ex isLineTerminator (tl r)
      then Some (w, hd r, stripTrailingQuote (stripLeadingQuote (tl r)))
      else None)"
proof (cases r)
  case Nil
  then show ?thesis by (simp add: afterWord_def)
next
  case (Cons op rest)
  then show ?thesis
    by (cases rest) (auto simp: afterWord_def quotedRest_eq)
qed

lemma fieldMatch_eq:
  "fieldMatch token =
     (let name = takeWhile isWordChar token;
          rest = dropWhile isWordChar token
      in if name \<noteq> [] \<and> 2 \<le> length rest \<and> (hd rest = CHR '':'' \<or> hd rest = CHR ''='')
            \<and> \<not> list_ex isLineTerminator (tl rest)
         then Some (name, hd rest, stripTrailingQuote (stripLeadingQuote (tl rest)))
         else None)"
  by (simp add: fieldMatch_def wordThenRest_eq afterWord_eq Let_def)

lemma startsWith_quote: \<open>startsWith s ''"'' \<longleftrightarrow> s \<noteq> [] \<and> hd s = CHR ''"''\<close>
  by (cases s) auto

lemma endsWith_quote: \<open>endsWith s ''"'' \<longleftrightarrow> s \<noteq> [] \<and> last s = CHR ''"''\<close>
  by (cases s rule: rev_cases) (auto simp: endsWith_def)

lemma slice_inner_eq: "slice_inner s = butlast (tl s)"
  by (cases s) (simp_all add: slice_inner_def butlast_conv_take)

text \<open>
  Claim C5, as the code has it. The pattern matches when the token is a non-empty run of
  word characters, a colon or an equals sign, and at least one more character, with no
  line terminator after the sign. Then the field is the run, the operator is the sign, and
  the term is what follows the sign with one leading double quote stripped and one
  trailing double quote stripped, each on its own and only while a character remains: a
  lone quote at one end is stripped too. Otherwise a token that starts and ends with a
  double quote loses its first and last character (the token that is a single double quote
  becomes the empty term), and any other token is the term as it is; both give a filter
  without field and with the operator \<open>'':''\<close>.
\<close>

theorem Filter_parse_strips_each_quote:
  "Filter_parse token = parse_spec token"
  by (simp add: Filter_parse_def parse_spec_def fieldMatch_eq Let_def startsWith_quote
      endsWith_quote slice_inner_eq)

theorem Filter_parse_strips_each_quote_witness:
  \<open>Filter_parse ''title="the "best" one"'' = Filter (Some ''title'') ''the "best" one'' ''=''
   \<and> Filter_parse ''"a b"'' = Filter None ''a b'' '':''
   \<and> Filter_parse ''a-b:c'' = Filter None ''a-b:c'' '':''\<close>
proof -
  have \<open>parse_spec ''title="the "best" one"'' = Filter (Some ''title'') ''the "best" one'' ''=''\<close>
    and \<open>parse_spec ''"a b"'' = Filter None ''a b'' '':''\<close>
    and \<open>parse_spec ''a-b:c'' = Filter None ''a-b:c'' '':''\<close>
    by code_simp+
  with Filter_parse_strips_each_quote [of \<open>''title="the "best" one"''\<close>]
    Filter_parse_strips_each_quote [of \<open>''"a b"''\<close>]
    Filter_parse_strips_each_quote [of \<open>''a-b:c''\<close>]
  show ?thesis
    by simp
qed

text \<open>
  The claim as written fails where it says that a lone quote is not stripped: the opening
  quote of \<open>name:"abc\<close> and the closing quote of \<open>name=abc"\<close> are stripped, where
  \<open>stripPair\<close> keeps them. The token that is a single double quote is not wrapped in a pair
  of quotes and still loses its quote.
\<close>

theorem Filter_parse_lone_quote_counterexample:
  \<open>Filter_parse ''name:"abc'' = Filter (Some ''name'') ''abc'' '':''
   \<and> term' (Filter_parse ''name:"abc'') \<noteq> stripPair ''"abc''
   \<and> Filter_parse ''name=abc"'' = Filter (Some ''name'') ''abc'' ''=''
   \<and> term' (Filter_parse ''name=abc"'') \<noteq> stripPair ''abc"''
   \<and> Filter_parse ''"'' = Filter None [] '':''\<close>
  by code_simp

section \<open>The mode of a parsed group\<close>

lemma leafFilters_append: "leafFilters (xs @ ys) = leafFilters xs @ leafFilters ys"
  by (induction xs rule: leafFilters.induct) simp_all

lemma parseLoop_level:
  "(\<forall>d. levelTokens (Suc d) (drop i toks)
          = levelTokens d (drop (Suc (snd (parseLoop toks i g cm))) toks))
   \<and> mode (fst (parseLoop toks i g cm))
       = (if ''~'' \<in> set (levelTokens 0 (drop i toks)) then ''OR'' else cm)
   \<and> leafFilters (include_items (fst (parseLoop toks i g cm)))
       = leafFilters (include_items g)
         @ map Filter_parse (filter isIncludeToken (levelTokens 0 (drop i toks)))"
proof (induction toks i g cm rule: parseLoop.induct)
  case (1 toks i g cm)
  show ?case
  proof (cases "i < length toks")
    case False
    then show ?thesis
      by (subst (1 2 3) parseLoop.simps) (simp add: setMode_def)
  next
    case lt: True
    then have dr: "drop i toks = toks ! i # drop (Suc i) toks"
      by (simp add: Cons_nth_drop_Suc)
    consider (tilde) "toks ! i = ''~''"
      | (opened) "toks ! i \<noteq> ''~''" "toks ! i = ''(''"
      | (closed) "toks ! i \<noteq> ''~''" "toks ! i \<noteq> ''(''" "toks ! i = '')''"
      | (leaf) "toks ! i \<noteq> ''~''" "toks ! i \<noteq> ''(''" "toks ! i \<noteq> '')''"
      by blast
    then show ?thesis
    proof cases
      case tilde
      have res: "parseLoop toks i g cm = parseLoop toks (i + 1) g ''OR''"
        using lt tilde by (subst parseLoop.simps) simp
      from tilde "1.IH"(1) [OF lt refl tilde] show ?thesis
        unfolding res by (simp add: dr isIncludeToken_def)
    next
      case opened
      obtain sub n where sub: "parseLoop toks (i + 1) (newFilterGroup ''AND'') ''AND'' = (sub, n)"
        by (cases "parseLoop toks (i + 1) (newFilterGroup ''AND'') ''AND''")
      note a = "1.IH"(2) [OF lt refl opened]
      note b = "1.IH"(3) [OF lt refl opened sub [symmetric]]
      have res: "parseLoop toks i g cm = parseLoop toks (n + 1) (add g (IGroup sub) False) cm"
        using lt opened sub by (subst parseLoop.simps) simp
      have skip: "levelTokens (Suc d) (drop (Suc i) toks) = levelTokens d (drop (Suc n) toks)" for d
        using a sub by simp
      show ?thesis
        unfolding res using b opened
        by (simp add: dr skip add_def leafFilters_append)
    next
      case closed
      have res: "parseLoop toks i g cm = (setMode g cm, i)"
        using lt closed by (subst parseLoop.simps) simp
      from closed show ?thesis
        unfolding res by (simp add: dr setMode_def)
    next
      case leaf
      let ?x = "startsWith (toks ! i) ''-''"
      let ?f = "Filter_parse (if ?x then slice1 (toks ! i) else toks ! i)"
      have res: "parseLoop toks i g cm = parseLoop toks (i + 1) (add g (IFilter ?f) ?x) cm"
        using lt leaf by (subst parseLoop.simps) (simp add: Let_def)
      from leaf "1.IH"(4) [OF lt refl leaf refl refl refl] show ?thesis
        unfolding res by (simp add: dr add_def leafFilters_append isIncludeToken_def)
    qed
  qed
qed

text \<open>
  Claim C3. The group that \<open>parseTokens\<close> returns for the tokens from \<open>start\<close> on has one
  mode for all its include items: \<open>''OR''\<close> when a tilde is among the tokens of that level
  (the tokens inside nested brackets and behind the closing bracket of the level do not
  count), \<open>''AND''\<close> when there is none. The leaf filters of its include list are the
  filters of all the tokens of the level that are neither a tilde nor an exclusion, in
  order. So \<open>a b~c\<close> is one group with mode \<open>''OR''\<close> over \<open>a\<close>, \<open>b\<close> and \<open>c\<close>.
\<close>

theorem parseTokens_single_mode:
  "mode (fst (parseTokens toks start))
     = (if ''~'' \<in> set (levelTokens 0 (drop start toks)) then ''OR'' else ''AND'')
   \<and> leafFilters (include_items (fst (parseTokens toks start)))
     = map Filter_parse (filter isIncludeToken (levelTokens 0 (drop start toks)))
   \<and> parseQuery ''a b~c''
     = FilterGroup [IFilter (Filter None ''a'' '':''), IFilter (Filter None ''b'' '':''),
                    IFilter (Filter None ''c'' '':'')] [] ''OR''"
proof -
  have "parseQuery ''a b~c''
     = FilterGroup [IFilter (Filter None ''a'' '':''), IFilter (Filter None ''b'' '':''),
                    IFilter (Filter None ''c'' '':'')] [] ''OR''"
    by code_simp
  then show ?thesis
    using parseLoop_level [of start toks "newFilterGroup ''AND''" "''AND''"]
    by (simp add: parseTokens_def newFilterGroup_def)
qed

section \<open>Termination of the parser\<close>

lemma parseLoop_index_upper: "snd (parseLoop toks i g cm) \<le> length toks"
proof (induction toks i g cm rule: parseLoop.induct)
  case (1 toks i g cm)
  show ?case
  proof (cases "i < length toks")
    case False
    then show ?thesis
      by (subst parseLoop.simps) simp
  next
    case lt: True
    consider (tilde) "toks ! i = ''~''"
      | (opened) "toks ! i \<noteq> ''~''" "toks ! i = ''(''"
      | (closed) "toks ! i \<noteq> ''~''" "toks ! i \<noteq> ''(''" "toks ! i = '')''"
      | (leaf) "toks ! i \<noteq> ''~''" "toks ! i \<noteq> ''(''" "toks ! i \<noteq> '')''"
      by blast
    then show ?thesis
    proof cases
      case tilde
      with lt "1.IH"(1) [OF lt refl tilde] show ?thesis
        by (subst parseLoop.simps) simp
    next
      case opened
      obtain sub n where sub: "parseLoop toks (i + 1) (newFilterGroup ''AND'') ''AND'' = (sub, n)"
        by (cases "parseLoop toks (i + 1) (newFilterGroup ''AND'') ''AND''")
      from lt opened sub "1.IH"(3) [OF lt refl opened sub [symmetric]] show ?thesis
        by (subst parseLoop.simps) simp
    next
      case closed
      with lt show ?thesis
        by (subst parseLoop.simps) simp
    next
      case leaf
      with lt "1.IH"(4) [OF lt refl leaf refl refl refl] show ?thesis
        by (subst parseLoop.simps) (simp add: Let_def)
    qed
  qed
qed

lemma openDepth_ge: "d \<le> openDepth d ts"
proof (induction ts arbitrary: d)
  case Nil
  show ?case by simp
next
  case (Cons t ts)
  from Cons [of "Suc d"] Cons [of d] show ?case
    by (auto split: nat.splits)
qed

lemma openDepth_level:
  "openDepth (Suc d) (drop i toks)
     = max (Suc d + openDepth 0 (drop i toks))
           (openDepth d (drop (Suc (snd (parseLoop toks i g cm))) toks))"
proof (induction toks i g cm arbitrary: d rule: parseLoop.induct)
  case (1 toks i g cm)
  show ?case
  proof (cases "i < length toks")
    case False
    then show ?thesis
      by (subst parseLoop.simps) simp
  next
    case lt: True
    then have dr: "drop i toks = toks ! i # drop (Suc i) toks"
      by (simp add: Cons_nth_drop_Suc)
    consider (tilde) "toks ! i = ''~''"
      | (opened) "toks ! i \<noteq> ''~''" "toks ! i = ''(''"
      | (closed) "toks ! i \<noteq> ''~''" "toks ! i \<noteq> ''(''" "toks ! i = '')''"
      | (leaf) "toks ! i \<noteq> ''~''" "toks ! i \<noteq> ''(''" "toks ! i \<noteq> '')''"
      by blast
    then show ?thesis
    proof cases
      case tilde
      have res: "parseLoop toks i g cm = parseLoop toks (i + 1) g ''OR''"
        using lt tilde by (subst parseLoop.simps) simp
      from tilde "1.IH"(1) [OF lt refl tilde, of d] show ?thesis
        unfolding res by (simp add: dr)
    next
      case opened
      obtain sub n where sub: "parseLoop toks (i + 1) (newFilterGroup ''AND'') ''AND'' = (sub, n)"
        by (cases "parseLoop toks (i + 1) (newFilterGroup ''AND'') ''AND''")
      have res: "parseLoop toks i g cm = parseLoop toks (n + 1) (add g (IGroup sub) False) cm"
        using lt opened sub by (subst parseLoop.simps) simp
      have a: "openDepth (Suc e) (drop (Suc i) toks)
          = max (Suc e + openDepth 0 (drop (Suc i) toks)) (openDepth e (drop (Suc n) toks))" for e
        using "1.IH"(2) [OF lt refl opened, of e] sub by simp
      have b: "openDepth (Suc d) (drop (Suc n) toks)
          = max (Suc d + openDepth 0 (drop (Suc n) toks))
              (openDepth d (drop (Suc (snd (parseLoop toks (n + 1) (add g (IGroup sub) False) cm))) toks))"
        using "1.IH"(3) [OF lt refl opened sub [symmetric], of d] by simp
      show ?thesis
        unfolding res using opened
        by (simp add: dr a [of "Suc d"] a [of 0] b)
    next
      case closed
      have res: "parseLoop toks i g cm = (setMode g cm, i)"
        using lt closed by (subst parseLoop.simps) simp
      from closed show ?thesis
        unfolding res by (simp add: dr)
    next
      case leaf
      let ?x = "startsWith (toks ! i) ''-''"
      let ?f = "Filter_parse (if ?x then slice1 (toks ! i) else toks ! i)"
      have res: "parseLoop toks i g cm = parseLoop toks (i + 1) (add g (IFilter ?f) ?x) cm"
        using lt leaf by (subst parseLoop.simps) (simp add: Let_def)
      from leaf "1.IH"(4) [OF lt refl leaf refl refl refl, of d] show ?thesis
        unfolding res by (simp add: dr)
    qed
  qed
qed

lemma parseLoopS_eq:
  "parseLoopS frames toks i g cm
     = (if openDepth 0 (drop i toks) \<le> frames then Inr (parseLoop toks i g cm)
        else Inl RangeError)"
proof (induction toks i g cm arbitrary: frames rule: parseLoop.induct)
  case (1 toks i g cm)
  show ?case
  proof (cases "i < length toks")
    case False
    then show ?thesis
      by (subst parseLoopS.simps, subst parseLoop.simps) simp
  next
    case lt: True
    then have dr: "drop i toks = toks ! i # drop (Suc i) toks"
      by (simp add: Cons_nth_drop_Suc)
    consider (tilde) "toks ! i = ''~''"
      | (opened) "toks ! i \<noteq> ''~''" "toks ! i = ''(''"
      | (closed) "toks ! i \<noteq> ''~''" "toks ! i \<noteq> ''(''" "toks ! i = '')''"
      | (leaf) "toks ! i \<noteq> ''~''" "toks ! i \<noteq> ''(''" "toks ! i \<noteq> '')''"
      by blast
    then show ?thesis
    proof cases
      case tilde
      have res: "parseLoop toks i g cm = parseLoop toks (i + 1) g ''OR''"
        using lt tilde by (subst parseLoop.simps) simp
      have resS: "parseLoopS frames toks i g cm = parseLoopS frames toks (i + 1) g ''OR''"
        using lt tilde by (subst parseLoopS.simps) simp
      from tilde "1.IH"(1) [OF lt refl tilde, of frames] show ?thesis
        unfolding res resS by (simp add: dr)
    next
      case opened
      obtain sub n where sub: "parseLoop toks (i + 1) (newFilterGroup ''AND'') ''AND'' = (sub, n)"
        by (cases "parseLoop toks (i + 1) (newFilterGroup ''AND'') ''AND''")
      have res: "parseLoop toks i g cm = parseLoop toks (n + 1) (add g (IGroup sub) False) cm"
        using lt opened sub by (subst parseLoop.simps) simp
      have depth: "openDepth 0 (drop i toks)
          = max (Suc (openDepth 0 (drop (Suc i) toks))) (openDepth 0 (drop (Suc n) toks))"
        using opened openDepth_level [of 0 "Suc i" toks "newFilterGroup ''AND''" "''AND''"] sub
        by (simp add: dr)
      show ?thesis
      proof (cases frames)
        case 0
        have "parseLoopS frames toks i g cm = Inl RangeError"
          using lt opened 0 by (subst parseLoopS.simps) simp
        with 0 depth show ?thesis by simp
      next
        case (Suc below)
        note inner = "1.IH"(2) [OF lt refl opened, of below]
        note outer = "1.IH"(3) [OF lt refl opened sub [symmetric], of frames]
        show ?thesis
        proof (cases "openDepth 0 (drop (Suc i) toks) \<le> below")
          case True
          with inner sub
          have "parseLoopS below toks (i + 1) (newFilterGroup ''AND'') ''AND'' = Inr (sub, n)"
            by simp
          with lt opened Suc
          have "parseLoopS frames toks i g cm
              = parseLoopS frames toks (n + 1) (add g (IGroup sub) False) cm"
            by (subst parseLoopS.simps) simp
          with outer True Suc depth show ?thesis
            unfolding res by simp
        next
          case False
          with inner
          have "parseLoopS below toks (i + 1) (newFilterGroup ''AND'') ''AND'' = Inl RangeError"
            by simp
          with lt opened Suc have "parseLoopS frames toks i g cm = Inl RangeError"
            by (subst parseLoopS.simps) simp
          with False Suc depth show ?thesis by simp
        qed
      qed
    next
      case closed
      have res: "parseLoop toks i g cm = (setMode g cm, i)"
        using lt closed by (subst parseLoop.simps) simp
      have resS: "parseLoopS frames toks i g cm = Inr (setMode g cm, i)"
        using lt closed by (subst parseLoopS.simps) simp
      from closed show ?thesis
        unfolding res resS by (simp add: dr)
    next
      case leaf
      let ?x = "startsWith (toks ! i) ''-''"
      let ?f = "Filter_parse (if ?x then slice1 (toks ! i) else toks ! i)"
      have res: "parseLoop toks i g cm = parseLoop toks (i + 1) (add g (IFilter ?f) ?x) cm"
        using lt leaf by (subst parseLoop.simps) (simp add: Let_def)
      have resS: "parseLoopS frames toks i g cm
          = parseLoopS frames toks (i + 1) (add g (IFilter ?f) ?x) cm"
        using lt leaf by (subst parseLoopS.simps) (simp add: Let_def)
      from leaf "1.IH"(4) [OF lt refl leaf refl refl refl, of frames] show ?thesis
        unfolding res resS by (simp add: dr)
    qed
  qed
qed

lemma parseQueryS_eq:
  "parseQueryS frames query
     = (if openDepth 0 (tokenize query) \<le> frames then Inr (parseQuery query)
        else Inl RangeError)"
  by (simp add: parseQueryS_def parseTokensS_def parseQuery_def parseTokens_def parseLoopS_eq
      split: prod.splits)

lemma tokenize_brackets: "tokenize (replicate n (CHR ''('')) = replicate n ''(''"
proof -
  have "scan [] False (replicate n (CHR ''('')) = replicate n ''(''"
    by (induction n) (simp_all add: flush_def trim_def)
  then show ?thesis by (simp add: tokenize_scan)
qed

lemma openDepth_brackets: "openDepth d (replicate n ''('') = d + n"
  by (induction n arbitrary: d) simp_all

lemma parseQueryS_brackets:
  "parseQueryS frames (replicate (Suc frames) (CHR ''('')) = Inl RangeError"
  by (simp only: parseQueryS_eq tokenize_brackets openDepth_brackets) simp

text \<open>
  Claim C8, as the code has it. The recursion of \<open>parseTokens\<close> is well founded at every
  token list, index, group and mode, with and without the stack (\<open>parseLoop_dom\<close> and
  \<open>parseLoopS_dom\<close> hold of an argument when no infinite chain of recursive calls starts
  there), and the index it returns lies between the start (or the length of the list, when
  the start is behind it) and the length of the list. On a stack with room for \<open>frames\<close>
  further calls, \<open>parseTokens\<close> and \<open>parseQuery\<close> return their group exactly when at most
  \<open>frames\<close> brackets are open at once at the level they parse, and throw
  \<^verbatim>\<open>RangeError\<close> otherwise. Unbalanced quotes, a closing bracket that was never opened, a
  stray tilde or minus sign open no bracket and never throw; brackets that are never closed
  throw once they are more than the stack has room for.
\<close>

theorem parseQuery_returns_within_stack:
  "parseLoop_dom (toks, i, g, cm)
   \<and> parseLoopS_dom (frames, toks, i, g, cm)
   \<and> min start (length toks) \<le> snd (parseTokens toks start)
   \<and> snd (parseTokens toks start) \<le> length toks
   \<and> parseTokensS frames toks start
       = (if openDepth 0 (drop start toks) \<le> frames then Inr (parseTokens toks start)
          else Inl RangeError)
   \<and> parseQueryS frames query
       = (if openDepth 0 (tokenize query) \<le> frames then Inr (parseQuery query)
          else Inl RangeError)"
proof -
  have dom: "parseLoop_dom (toks, i, g, cm)"
    using parseLoop_total by blast
  have domS: "parseLoopS_dom (frames, toks, i, g, cm)"
    using parseLoopS_total by blast
  have lower: "min start (length toks) \<le> snd (parseTokens toks start)"
    unfolding parseTokens_def by (rule parseLoop_index_lower) (use parseLoop_total in blast)
  have upper: "snd (parseTokens toks start) \<le> length toks"
    unfolding parseTokens_def by (rule parseLoop_index_upper)
  have toksS: "parseTokensS frames toks start
       = (if openDepth 0 (drop start toks) \<le> frames then Inr (parseTokens toks start)
          else Inl RangeError)"
    by (simp add: parseTokensS_def parseTokens_def parseLoopS_eq)
  from dom domS lower upper toksS parseQueryS_eq [of frames query] show ?thesis
    by blast
qed

theorem parseQuery_returns_within_stack_witness:
  \<open>parseQueryS 2 ''(a (b'' =
     Inr (FilterGroup
       [IGroup (FilterGroup
          [IFilter (Filter None ''a'' '':''),
           IGroup (FilterGroup [IFilter (Filter None ''b'' '':'')] [] ''AND'')] [] ''AND'')]
       [] ''AND'')
   \<and> parseQueryS 1 ''(a (b'' = Inl RangeError
   \<and> parseQueryS 0 ''"a (b'' = Inr (FilterGroup [IFilter (Filter None ''"a (b'' '':'')] [] ''AND'')
   \<and> parseQueryS 0 ''a) b'' = Inr (FilterGroup [IFilter (Filter None ''a'' '':'')] [] ''AND'')
   \<and> parseQueryS 0 ''~ - ~'' = Inr (FilterGroup [] [IFilter (Filter None [] '':'')] ''OR'')
   \<and> snd (parseTokens [''('', ''a'', '')'', ''b''] 0) = 4\<close>
proof -
  have d1: \<open>openDepth 0 (tokenize ''(a (b'') = 2\<close>
    and d2: \<open>openDepth 0 (tokenize ''"a (b'') = 0\<close>
    and d3: \<open>openDepth 0 (tokenize ''a) b'') = 0\<close>
    and d4: \<open>openDepth 0 (tokenize ''~ - ~'') = 0\<close>
    by code_simp+
  have e1: \<open>parseQuery ''(a (b'' =
       FilterGroup
         [IGroup (FilterGroup
            [IFilter (Filter None ''a'' '':''),
             IGroup (FilterGroup [IFilter (Filter None ''b'' '':'')] [] ''AND'')] [] ''AND'')]
         [] ''AND''\<close>
    and e2: \<open>parseQuery ''"a (b'' = FilterGroup [IFilter (Filter None ''"a (b'' '':'')] [] ''AND''\<close>
    and e3: \<open>parseQuery ''a) b'' = FilterGroup [IFilter (Filter None ''a'' '':'')] [] ''AND''\<close>
    and e4: \<open>parseQuery ''~ - ~'' = FilterGroup [] [IFilter (Filter None [] '':'')] ''OR''\<close>
    by code_simp+
  from parseQuery_returns_within_stack [of _ _ _ _ 2 _ \<open>''(a (b''\<close>]
    parseQuery_returns_within_stack [of _ _ _ _ 1 _ \<open>''(a (b''\<close>]
    parseQuery_returns_within_stack [of _ _ _ _ 0 _ \<open>''"a (b''\<close>]
    parseQuery_returns_within_stack [of _ _ _ _ 0 _ \<open>''a) b''\<close>]
    parseQuery_returns_within_stack [of _ _ _ _ 0 _ \<open>''~ - ~''\<close>]
    d1 d2 d3 d4 e1 e2 e3 e4
  have q: \<open>parseQueryS 2 ''(a (b'' =
     Inr (FilterGroup
       [IGroup (FilterGroup
          [IFilter (Filter None ''a'' '':''),
           IGroup (FilterGroup [IFilter (Filter None ''b'' '':'')] [] ''AND'')] [] ''AND'')]
       [] ''AND'')
   \<and> parseQueryS 1 ''(a (b'' = Inl RangeError
   \<and> parseQueryS 0 ''"a (b'' = Inr (FilterGroup [IFilter (Filter None ''"a (b'' '':'')] [] ''AND'')
   \<and> parseQueryS 0 ''a) b'' = Inr (FilterGroup [IFilter (Filter None ''a'' '':'')] [] ''AND'')
   \<and> parseQueryS 0 ''~ - ~'' = Inr (FilterGroup [] [IFilter (Filter None [] '':'')] ''OR'')\<close>
    by simp
  have "snd (parseTokens [''('', ''a'', '')'', ''b''] 0) = 4"
    by code_simp
  with q show ?thesis
    by blast
qed

text \<open>
  The claim as written fails on brackets that are never closed: whatever room the stack
  has, one opening bracket more than that makes \<open>parseQuery\<close> throw. Here the stack has
  room for ten thousand calls and the query is ten thousand and one opening brackets.
\<close>

theorem parseQuery_deep_brackets_counterexample:
  "parseQueryS 10000 (replicate 10001 (CHR ''('')) = Inl RangeError"
  using parseQueryS_brackets [of 10000] by simp

section \<open>Serialization and parsing again\<close>

text \<open>
  Claim C6 at the place where the code departs from it. The group below is built by \<open>add\<close>
  alone: its exclude list holds one group of the two filters \<open>a\<close> and \<open>b\<close>. A group that
  is alone in its list is written without brackets, so the string is \<open>-a b\<close>, and parsing
  it gives a group that excludes \<open>a\<close> and includes \<open>b\<close>. The record whose one value is
  \<open>c\<close> matches the group that was built and does not match the group that was parsed.
  A second case: the term \<open>a\<close> followed by a space is written without quotes, and the
  tokenizer trims it, so the parsed filter matches the value \<open>a\<close> and the built one does
  not.
\<close>

theorem toString_parseQuery_excluded_group:
  \<open>add (newFilterGroup ''AND'')
      (IGroup (add (add (newFilterGroup ''AND'') (IFilter (Filter None ''a'' '':'')) False)
                 (IFilter (Filter None ''b'' '':'')) False))
      True
     = FilterGroup []
         [IGroup (FilterGroup [IFilter (Filter None ''a'' '':''), IFilter (Filter None ''b'' '':'')]
                    [] ''AND'')]
         ''AND''
   \<and> FilterGroup_toString
       (FilterGroup []
         [IGroup (FilterGroup [IFilter (Filter None ''a'' '':''), IFilter (Filter None ''b'' '':'')]
                    [] ''AND'')]
         ''AND'') = ''-a b''
   \<and> parseQuery ''-a b''
     = FilterGroup [IFilter (Filter None ''b'' '':'')] [IFilter (Filter None ''a'' '':'')] ''AND''
   \<and> matchesEntry
       (FilterGroup []
         [IGroup (FilterGroup [IFilter (Filter None ''a'' '':''), IFilter (Filter None ''b'' '':'')]
                    [] ''AND'')]
         ''AND'')
       [(''text'', JString ''c'')]
   \<and> \<not> matchesEntry (parseQuery ''-a b'') [(''text'', JString ''c'')]
   \<and> FilterGroup_toString (add (newFilterGroup ''AND'') (IFilter (Filter None ''a '' '':'')) False)
     = ''a ''
   \<and> parseQuery ''a '' = FilterGroup [IFilter (Filter None ''a'' '':'')] [] ''AND''
   \<and> \<not> matchesEntry (add (newFilterGroup ''AND'') (IFilter (Filter None ''a '' '':'')) False)
          [(''text'', JString ''a'')]
   \<and> matchesEntry (parseQuery ''a '') [(''text'', JString ''a'')]\<close>
  by code_simp

end
